theory Spec2Isabelle
  imports Main "HOL-Library.AList"
begin

section \<open>Tables, references and Python errors\<close>

text \<open>
  The program is one script, \<^verbatim>\<open>app.py\<close>. It loads four spreadsheets into a dictionary
  \<^verbatim>\<open>datasets\<close> of data frames, builds the dictionary \<^verbatim>\<open>measurement_map\<close> from column
  names to dataset names, and, once a measurement is selected, copies the owning frame,
  coerces its \<^verbatim>\<open>DATETIME\<close> and \<^verbatim>\<open>DATE\<close> columns, filters the rows by date and exports
  the result.

  A point in time is a calendar day (its proleptic ordinal, what \<^verbatim>\<open>date.toordinal()\<close>
  returns, so that the order of days is the order of the integers) and a time of day.
\<close>

record timestamp =
  day :: int
  tod :: nat

text \<open>
  A cell of a frame is a timestamp, the missing timestamp \<^verbatim>\<open>NaT\<close>, or any other value
  the spreadsheet held (text, number, blank), of a type \<open>'v\<close> left open.
\<close>

datatype 'v cell = Stamp timestamp | NaT | Other 'v

text \<open>
  A frame is column-major, as in pandas: the columns in their order, each with its
  values, and the row labels. Row \<open>i\<close> of the frame is the \<open>i\<close>-th label together with the
  \<open>i\<close>-th value of every column.
\<close>

record 'v frame =
  cols :: "(string \<times> 'v cell list) list"
  index :: "nat list"

definition columns :: "'v frame \<Rightarrow> string list" where
  "columns df = map fst (cols df)"

text \<open>
  What \<^verbatim>\<open>pd.read_excel\<close> returns: column names are unique, every column has one value
  per row label, and the labels (a \<^verbatim>\<open>RangeIndex\<close>) are unique.
\<close>

definition wf_frame :: "'v frame \<Rightarrow> bool" where
  "wf_frame df \<longleftrightarrow>
     distinct (columns df) \<and> distinct (index df) \<and>
     (\<forall>xs \<in> set (map snd (cols df)). length xs = length (index df))"

text \<open>
  Frames are objects: a variable or a dictionary entry holds a reference. The store maps
  every address to the frame it holds; addresses below \<open>next_free\<close> are in use.
\<close>

type_synonym addr = nat

record 'v store =
  objs :: "addr \<Rightarrow> 'v frame"
  next_free :: addr

datatype py_error =
  KeyError string | DateParseError | AttributeError | ValueError | TypeError | PlotError

text \<open>A dictionary keeps its keys in insertion order; \<^verbatim>\<open>d[k]\<close> raises on a missing key.\<close>

definition dict_get :: "(string \<times> 'a) list \<Rightarrow> string \<Rightarrow> py_error + 'a" where
  "dict_get d k = (case map_of d k of None \<Rightarrow> Inl (KeyError k) | Some v \<Rightarrow> Inr v)"


section \<open>Step 2: the measurement index\<close>

text \<open>
  \<^verbatim>\<open>
  measurement_map = {}
  exclude_cols = ["DATETIME", "CW", "DATE", "LCL", "UCL"]
  for name, df in datasets.items():
      for col in df.columns:
          if col not in exclude_cols:
              measurement_map[col] = name
  \<close>
  Assigning to a key that is already there replaces its value in place, a new key goes
  to the end: \<^const>\<open>AList.update\<close>.
\<close>

definition exclude_cols :: "string list" where
  "exclude_cols = [''DATETIME'', ''CW'', ''DATE'', ''LCL'', ''UCL'']"

fun add_columns :: "string \<Rightarrow> string list \<Rightarrow> (string \<times> string) list \<Rightarrow> (string \<times> string) list" where
  "add_columns name [] m = m"
| "add_columns name (col # cs) m =
     add_columns name cs (if col \<notin> set exclude_cols then AList.update col name m else m)"

fun add_datasets :: "'v store \<Rightarrow> (string \<times> addr) list \<Rightarrow> (string \<times> string) list \<Rightarrow> (string \<times> string) list" where
  "add_datasets s [] m = m"
| "add_datasets s ((name, df) # ds) m =
     add_datasets s ds (add_columns name (columns (objs s df)) m)"

definition measurement_map :: "'v store \<Rightarrow> (string \<times> addr) list \<Rightarrow> (string \<times> string) list" where
  "measurement_map s datasets = add_datasets s datasets []"


section \<open>Library operations\<close>

text \<open>
  The script calls into pandas, plotly and openpyxl. What the claims need of them is kept,
  the rest is a parameter:
  \<^item> \<open>parse\<close>: what \<^verbatim>\<open>pd.to_datetime\<close> makes of one raw value of a given column: a
    timestamp, the missing timestamp (a blank cell), or a failure. The column is an
    argument because pandas settles on one format for the whole column, so the same value
    may parse in one column and fail, or stand for another day, in another;
  \<^item> \<open>plot\<close>: \<^verbatim>\<open>px.line\<close> and the calls after it, which may raise;
  \<^item> \<open>encode_csv\<close> and \<open>encode_xlsx\<close>: the bytes the two writers produce for a header row
    and data rows (value formatting, quoting, line ends, the workbook container).
\<close>

datatype coerced = Unparseable | Missing | Parsed timestamp

record 'v table =
  header :: "string list"
  body :: "'v cell list list"

record 'v lib =
  parse :: "'v cell list \<Rightarrow> 'v \<Rightarrow> coerced"
  plot :: "'v frame \<Rightarrow> string list \<Rightarrow> py_error option"
  encode_csv :: "'v table \<Rightarrow> string"
  encode_xlsx :: "string \<Rightarrow> 'v table \<Rightarrow> string"

fun try_map :: "('a \<Rightarrow> py_error + 'b) \<Rightarrow> 'a list \<Rightarrow> py_error + 'b list" where
  "try_map f [] = Inr []"
| "try_map f (x # xs) =
     (case f x of Inl e \<Rightarrow> Inl e
      | Inr y \<Rightarrow> (case try_map f xs of Inl e \<Rightarrow> Inl e | Inr ys \<Rightarrow> Inr (y # ys)))"

text \<open>
  \<^verbatim>\<open>pd.to_datetime(series)\<close> with the default \<^verbatim>\<open>errors="raise"\<close>: the first value that
  does not parse raises; the script passes no other \<^verbatim>\<open>errors\<close> and catches nothing.
  Here \<open>p\<close> is the parser for the column at hand, \<open>parse L xs\<close> for the column \<open>xs\<close>.
\<close>

fun to_datetime_cell :: "('v \<Rightarrow> coerced) \<Rightarrow> 'v cell \<Rightarrow> py_error + 'v cell" where
  "to_datetime_cell p (Stamp t) = Inr (Stamp t)"
| "to_datetime_cell p NaT = Inr NaT"
| "to_datetime_cell p (Other v) =
     (case p v of Unparseable \<Rightarrow> Inl DateParseError | Missing \<Rightarrow> Inr NaT | Parsed t \<Rightarrow> Inr (Stamp t))"

definition to_datetime :: "('v \<Rightarrow> coerced) \<Rightarrow> 'v cell list \<Rightarrow> py_error + 'v cell list" where
  "to_datetime p xs = try_map (to_datetime_cell p) xs"

text \<open>\<^verbatim>\<open>series.dt.date\<close>: the calendar day of every timestamp, nothing for \<^verbatim>\<open>NaT\<close>.\<close>

fun cell_date :: "'v cell \<Rightarrow> py_error + int option" where
  "cell_date (Stamp t) = Inr (Some (day t))"
| "cell_date NaT = Inr None"
| "cell_date (Other v) = Inl AttributeError"

definition dt_date :: "'v cell list \<Rightarrow> py_error + int option list" where
  "dt_date xs = try_map cell_date xs"

text \<open>
  Comparing a column of days with one day; a missing day compares false. When every value
  of a column with at least one row is missing, \<^verbatim>\<open>.dt.date\<close> gives a \<^verbatim>\<open>datetime64\<close>
  column again, and comparing that with a date raises \<^verbatim>\<open>TypeError\<close> (see \<open>date_mask\<close> below).
\<close>

definition date_ge :: "int option \<Rightarrow> int \<Rightarrow> bool" where
  "date_ge d x = (case d of None \<Rightarrow> False | Some y \<Rightarrow> y \<ge> x)"

definition date_le :: "int option \<Rightarrow> int \<Rightarrow> bool" where
  "date_le d x = (case d of None \<Rightarrow> False | Some y \<Rightarrow> y \<le> x)"

text \<open>\<^verbatim>\<open>df[col]\<close>, and \<^verbatim>\<open>df[mask]\<close> for a boolean mask: the rows whose mask entry is true.\<close>

definition getitem :: "'v frame \<Rightarrow> string \<Rightarrow> py_error + 'v cell list" where
  "getitem df c = dict_get (cols df) c"

definition keep :: "bool list \<Rightarrow> 'a list \<Rightarrow> 'a list" where
  "keep msk xs = map snd (filter fst (zip msk xs))"

definition select_rows :: "bool list \<Rightarrow> 'v frame \<Rightarrow> 'v frame" where
  "select_rows msk df =
     \<lparr>cols = map (\<lambda>(c, xs). (c, keep msk xs)) (cols df), index = keep msk (index df)\<rparr>"

definition frame_empty :: "'v frame \<Rightarrow> bool" where
  "frame_empty df \<longleftrightarrow> index df = [] \<or> cols df = []"

text \<open>Operations on the store: a new object, \<^verbatim>\<open>df.copy()\<close>, and \<^verbatim>\<open>df[col] = values\<close>,
  which changes the object \<^verbatim>\<open>df\<close> refers to.\<close>

definition alloc :: "'v frame \<Rightarrow> 'v store \<Rightarrow> addr \<times> 'v store" where
  "alloc f s = (next_free s, \<lparr>objs = (objs s)(next_free s := f), next_free = Suc (next_free s)\<rparr>)"

definition frame_copy :: "addr \<Rightarrow> 'v store \<Rightarrow> addr \<times> 'v store" where
  "frame_copy a s = alloc (objs s a) s"

definition setitem :: "addr \<Rightarrow> string \<Rightarrow> 'v cell list \<Rightarrow> 'v store \<Rightarrow> 'v store" where
  "setitem a c xs s =
     s\<lparr>objs := (objs s)(a := (objs s a)\<lparr>cols := AList.update c xs (cols (objs s a))\<rparr>)\<rparr>"


section \<open>Steps 3 and 4: the range query\<close>

text \<open>The query is lines 176 to 199: the copy, the two coercions, the date picker, the filter.\<close>

text \<open>
  \<^verbatim>\<open>
  df = datasets[dataset_name].copy()
  df["DATETIME"] = pd.to_datetime(df["DATETIME"])
  df["DATE"] = pd.to_datetime(df["DATE"])
  \<close>
\<close>

definition coerce_dates :: "'v lib \<Rightarrow> addr \<Rightarrow> 'v store \<Rightarrow> (py_error + addr) \<times> 'v store" where
  "coerce_dates L a s =
     (let (df, s1) = frame_copy a s in
      case getitem (objs s1 df) ''DATETIME'' of
        Inl e \<Rightarrow> (Inl e, s1)
      | Inr xs \<Rightarrow>
         (case to_datetime (parse L xs) xs of
            Inl e \<Rightarrow> (Inl e, s1)
          | Inr ts \<Rightarrow>
             (let s2 = setitem df ''DATETIME'' ts s1 in
              case getitem (objs s2 df) ''DATE'' of
                Inl e \<Rightarrow> (Inl e, s2)
              | Inr ys \<Rightarrow>
                 (case to_datetime (parse L ys) ys of
                    Inl e \<Rightarrow> (Inl e, s2)
                  | Inr ds \<Rightarrow> (Inr df, setitem df ''DATE'' ds s2)))))"

text \<open>
  \<^verbatim>\<open>
  min_date, max_date = df["DATE"].min(), df["DATE"].max()
  start_date, end_date = st.date_input("...", [min_date, max_date],
                                       min_value=min_date, max_value=max_date)
  \<close>
  \<^verbatim>\<open>min\<close> and \<^verbatim>\<open>max\<close> skip missing values. When the column holds no timestamp at all (no
  row, or every value missing) both are \<^verbatim>\<open>NaT\<close> and the picker raises. Otherwise it returns
  the two dates the user picks; they are inputs of the model.
\<close>

datatype picked = PDate int | PDatetime timestamp

fun is_stamp :: "'v cell \<Rightarrow> bool" where
  "is_stamp (Stamp t) = True"
| "is_stamp NaT = False"
| "is_stamp (Other v) = False"

definition date_input :: "'v cell list \<Rightarrow> picked \<Rightarrow> picked \<Rightarrow> py_error + picked \<times> picked" where
  "date_input xs start_date end_date =
     (if list_ex is_stamp xs then Inr (start_date, end_date) else Inl ValueError)"

definition pick_dates :: "addr \<Rightarrow> picked \<Rightarrow> picked \<Rightarrow> 'v store \<Rightarrow> py_error + picked \<times> picked" where
  "pick_dates df start_date end_date s =
     (case getitem (objs s df) ''DATE'' of
        Inl e \<Rightarrow> Inl e
      | Inr xs \<Rightarrow> date_input xs start_date end_date)"

text \<open>
  A \<^verbatim>\<open>datetime\<close> among the picked values is cut to its date, then the rows are filtered:
  \<^verbatim>\<open>
  if isinstance(start_date, datetime): start_date = start_date.date()
  if isinstance(end_date, datetime): end_date = end_date.date()
  df = df[(df["DATE"].dt.date >= start_date) & (df["DATE"].dt.date <= end_date)]
  \<close>
  The filtered frame is a new object.
\<close>

fun as_date :: "picked \<Rightarrow> int" where
  "as_date (PDate d) = d"
| "as_date (PDatetime t) = day t"

definition in_range :: "picked \<Rightarrow> picked \<Rightarrow> int option \<Rightarrow> bool" where
  "in_range start_date end_date d \<longleftrightarrow> date_ge d (as_date start_date) \<and> date_le d (as_date end_date)"

definition date_mask :: "picked \<Rightarrow> picked \<Rightarrow> int option list \<Rightarrow> py_error + bool list" where
  "date_mask start_date end_date ds =
     (if ds \<noteq> [] \<and> list_all (\<lambda>d. d = None) ds then Inl TypeError
      else Inr (map (in_range start_date end_date) ds))"

definition filter_dates :: "addr \<Rightarrow> picked \<Rightarrow> picked \<Rightarrow> 'v store \<Rightarrow> (py_error + addr) \<times> 'v store" where
  "filter_dates df start_date end_date s =
     (case getitem (objs s df) ''DATE'' of
        Inl e \<Rightarrow> (Inl e, s)
      | Inr xs \<Rightarrow>
         (case dt_date xs of
            Inl e \<Rightarrow> (Inl e, s)
          | Inr ds \<Rightarrow>
             (case date_mask start_date end_date ds of
                Inl e \<Rightarrow> (Inl e, s)
              | Inr msk \<Rightarrow>
                 (let (v, s') = alloc (select_rows msk (objs s df)) s
                  in (Inr v, s')))))"

definition range_query :: "'v lib \<Rightarrow> addr \<Rightarrow> picked \<Rightarrow> picked \<Rightarrow> 'v store \<Rightarrow> (py_error + addr) \<times> 'v store" where
  "range_query L a start_date end_date s =
     (case coerce_dates L a s of
        (Inl e, s1) \<Rightarrow> (Inl e, s1)
      | (Inr df, s1) \<Rightarrow>
         (case pick_dates df start_date end_date s1 of
            Inl e \<Rightarrow> (Inl e, s1)
          | Inr (start_date, end_date) \<Rightarrow> filter_dates df start_date end_date s1))"


section \<open>Step 5: the exports\<close>

text \<open>
  \<^verbatim>\<open>
  def to_excel(dataframe):
      output = BytesIO()
      with pd.ExcelWriter(output, engine="openpyxl") as writer:
          dataframe.to_excel(writer, index=False, sheet_name="FilteredData")
      return output.getvalue()
  ...
  data=df.to_csv(index=False).encode("utf-8")
  \<close>
  Both write the column names as a header row and then the rows in order;
  \<^verbatim>\<open>index=False\<close> leaves the row labels out.
\<close>

definition rows_of :: "'v frame \<Rightarrow> 'v cell list list" where
  "rows_of df = map (\<lambda>i. map (\<lambda>(c, xs). xs ! i) (cols df)) [0..<length (index df)]"

definition table_of :: "'v frame \<Rightarrow> 'v table" where
  "table_of df = \<lparr>header = columns df, body = rows_of df\<rparr>"

definition to_excel :: "'v lib \<Rightarrow> 'v frame \<Rightarrow> string" where
  "to_excel L dataframe = encode_xlsx L ''FilteredData'' (table_of dataframe)"

definition to_csv :: "'v lib \<Rightarrow> 'v frame \<Rightarrow> string" where
  "to_csv L df = encode_csv L (table_of df)"


section \<open>The script from the selection on\<close>

text \<open>
  Nothing happens without a selection. Otherwise the first selected measurement picks
  the dataset, the range query runs, the chart is drawn unless the result is empty
  (then a warning is shown), and both exports are computed.
\<close>

datatype display = Chart | Warning

record rendered =
  view :: addr
  shown :: display
  excel_data :: string
  csv_data :: string

datatype outcome = NoSelection | Rendered rendered

definition run_script ::
  "'v lib \<Rightarrow> (string \<times> addr) list \<Rightarrow> string list \<Rightarrow> picked \<Rightarrow> picked \<Rightarrow> 'v store
     \<Rightarrow> (py_error + outcome) \<times> 'v store" where
  "run_script L datasets selected_measures start_date end_date s =
     (case selected_measures of
        [] \<Rightarrow> (Inr NoSelection, s)
      | m # _ \<Rightarrow>
         (case dict_get (measurement_map s datasets) m of
            Inl e \<Rightarrow> (Inl e, s)
          | Inr dataset_name \<Rightarrow>
             (case dict_get datasets dataset_name of
                Inl e \<Rightarrow> (Inl e, s)
              | Inr a \<Rightarrow>
                 (case range_query L a start_date end_date s of
                    (Inl e, s1) \<Rightarrow> (Inl e, s1)
                  | (Inr v, s1) \<Rightarrow>
                     (let df = objs s1 v in
                      case (if frame_empty df then None else plot L df selected_measures) of
                        Some e \<Rightarrow> (Inl e, s1)
                      | None \<Rightarrow>
                         (Inr (Rendered \<lparr>view = v,
                                 shown = (if frame_empty df then Warning else Chart),
                                 excel_data = to_excel L df, csv_data = to_csv L df\<rparr>), s1))))))"

text \<open>
  The day a row's \<^verbatim>\<open>DATE\<close> value stands for once coerced: the calendar date that the
  selection predicate compares. A value that is missing or does not parse has none.
\<close>

definition calendar_date :: "('v \<Rightarrow> coerced) \<Rightarrow> 'v cell \<Rightarrow> int option" where
  "calendar_date p c = (case to_datetime_cell p c of Inr (Stamp t) \<Rightarrow> Some (day t) | _ \<Rightarrow> None)"


text \<open>
  The rows of a frame, each with its label and its named values; and row \<open>i\<close> of a
  dataset as the query is to return it: its label and its values, the two date values
  coerced.
\<close>

definition frame_rows :: "'v frame \<Rightarrow> (nat \<times> (string \<times> 'v cell) list) list" where
  "frame_rows df =
     map (\<lambda>i. (index df ! i, map (\<lambda>(c, xs). (c, xs ! i)) (cols df))) [0..<length (index df)]"

definition coerce_cell :: "('v \<Rightarrow> coerced) \<Rightarrow> 'v cell \<Rightarrow> 'v cell" where
  "coerce_cell p c = (case to_datetime_cell p c of Inr d \<Rightarrow> d | Inl e \<Rightarrow> c)"

definition source_row :: "'v lib \<Rightarrow> 'v frame \<Rightarrow> nat \<Rightarrow> nat \<times> (string \<times> 'v cell) list" where
  "source_row L df i =
     (index df ! i,
      map (\<lambda>(c, xs). (c, if c = ''DATETIME'' \<or> c = ''DATE''
                           then coerce_cell (parse L xs) (xs ! i) else xs ! i)) (cols df))"

text \<open>
  The positions of the rows that satisfy the date predicate: the row's \<^verbatim>\<open>DATE\<close> has a
  calendar date \<open>d\<close> with \<open>start \<le> d \<le> end\<close>.
\<close>

definition matching :: "('v \<Rightarrow> coerced) \<Rightarrow> picked \<Rightarrow> picked \<Rightarrow> 'v cell list \<Rightarrow> nat set" where
  "matching p start_date end_date ys =
     {i. i < length ys \<and> in_range start_date end_date (calendar_date p (ys ! i))}"


section \<open>Example data\<close>

definition frame1 :: "string frame" where
  "frame1 = \<lparr>cols = [(''DATETIME'', [Other ''d1 8h'', Other ''d2 8h'', Other ''d3 8h'']),
                     (''DATE'', [Other ''d1'', Other ''d2 8h'', Other ''d3'']),
                     (''OvenA'', [Other ''180'', Other ''181'', Other ''179'']),
                     (''LCL'', [Other ''170'', Other ''170'', Other ''170''])],
              index = [0, 1, 2]\<rparr>"

definition frame2 :: "string frame" where
  "frame2 = \<lparr>cols = [(''DATETIME'', [Other ''d1 8h'']), (''DATE'', [Other ''d1'']),
                     (''OvenA'', [Other ''150'']), (''OvenB'', [Other ''151''])],
              index = [0]\<rparr>"

definition frame3 :: "string frame" where
  "frame3 = \<lparr>cols = [(''DATETIME'', [Other ''d2 8h'']), (''DATE'', [Other ''someday'']),
                     (''CW'', [Other ''1'']), (''OvenA'', [Other ''160''])],
              index = [0]\<rparr>"

definition store0 :: "string store" where
  "store0 = \<lparr>objs = (\<lambda>_. \<lparr>cols = [], index = []\<rparr>)(0 := frame1, 1 := frame2, 2 := frame3),
             next_free = 3\<rparr>"

definition datasets0 :: "(string \<times> addr) list" where
  "datasets0 = [(''dataset1'', 0), (''dataset2'', 1), (''dataset3'', 2)]"

text \<open>A dataset whose only row has a blank \<^verbatim>\<open>DATE\<close>, loaded alone.\<close>

definition frame_blank :: "string frame" where
  "frame_blank = \<lparr>cols = [(''DATETIME'', [Other ''d1 8h'']), (''DATE'', [Other []]),
                          (''OvenC'', [Other ''120''])],
                  index = [0]\<rparr>"

definition store1 :: "string store" where
  "store1 = \<lparr>objs = (\<lambda>_. \<lparr>cols = [], index = []\<rparr>)(0 := frame_blank), next_free = 1\<rparr>"

definition datasets1 :: "(string \<times> addr) list" where
  "datasets1 = [(''dataset1'', 0)]"

definition parse0 :: "string \<Rightarrow> coerced" where
  "parse0 v =
     (case map_of [(''d1'', (1, 0)), (''d2'', (2, 0)), (''d3'', (3, 0)),
                   (''d1 8h'', (1, 8)), (''d2 8h'', (2, 8)), (''d3 8h'', (3, 8))] v of
        Some (d, h) \<Rightarrow> Parsed \<lparr>day = d, tod = h\<rparr>
      | None \<Rightarrow> if v = [] then Missing else Unparseable)"

text \<open>
  A library for the examples: every column is parsed alike, the chart never fails, a value is written as its text
  (a timestamp as \<^verbatim>\<open>T\<close>), every field ends with a semicolon and every row with a bar.
\<close>

fun text0 :: "string cell \<Rightarrow> string" where
  "text0 (Other v) = v"
| "text0 (Stamp t) = ''T''"
| "text0 NaT = []"

definition line0 :: "string list \<Rightarrow> string" where
  "line0 fs = concat (map (\<lambda>f. f @ '';'') fs) @ ''|''"

definition encode0 :: "string table \<Rightarrow> string" where
  "encode0 t = concat (map line0 (header t # map (map text0) (body t)))"

definition lib0 :: "string lib" where
  "lib0 = \<lparr>parse = (\<lambda>column. parse0), plot = (\<lambda>df ms. None),
           encode_csv = encode0, encode_xlsx = (\<lambda>n t. n @ '':'' @ encode0 t)\<rparr>"

section \<open>Properties of the measurement index\<close>

lemma keys_add_columns:
  "fst ` set (add_columns name cs m) = fst ` set m \<union> {c \<in> set cs. c \<notin> set exclude_cols}"
  by (induction cs arbitrary: m) (auto simp: dom_update)

lemma update_values: "snd ` set (AList.update col name m) \<subseteq> insert name (snd ` set m)"
  by (induction m) auto

lemma values_add_columns:
  "snd ` set (add_columns name cs m) \<subseteq> insert name (snd ` set m)"
proof (induction cs arbitrary: m)
  case Nil
  then show ?case by auto
next
  case (Cons col cs)
  show ?case
  proof (cases "col \<notin> set exclude_cols")
    case True
    have "snd ` set (add_columns name cs (AList.update col name m))
            \<subseteq> insert name (snd ` set (AList.update col name m))"
      by (rule Cons.IH)
    also have "\<dots> \<subseteq> insert name (snd ` set m)"
      using update_values [of col name m] by blast
    finally show ?thesis using True by simp
  next
    case False
    then show ?thesis
      using Cons.IH [of m] by simp
  qed
qed

lemma map_of_add_columns:
  "map_of (add_columns name cs m) c =
     (if c \<in> set cs \<and> c \<notin> set exclude_cols then Some name else map_of m c)"
  by (induction cs arbitrary: m) (auto simp: update_conv')

lemma add_datasets_append:
  "add_datasets s (xs @ ys) m = add_datasets s ys (add_datasets s xs m)"
  by (induction xs arbitrary: m) auto

lemma map_of_add_datasets_absent:
  "\<forall>(n, a) \<in> set ds. c \<notin> set (columns (objs s a)) \<Longrightarrow>
     map_of (add_datasets s ds m) c = map_of m c"
  by (induction ds arbitrary: m) (auto simp: map_of_add_columns)

lemma keys_add_datasets:
  "fst ` set (add_datasets s ds m) =
     fst ` set m \<union> {c. c \<notin> set exclude_cols \<and> (\<exists>(n, a) \<in> set ds. c \<in> set (columns (objs s a)))}"
proof (induction ds arbitrary: m)
  case Nil
  then show ?case by simp
next
  case (Cons p ds)
  obtain name a where p: "p = (name, a)" by (cases p)
  have "fst ` set (add_datasets s (p # ds) m) =
      (fst ` set m \<union> {c \<in> set (columns (objs s a)). c \<notin> set exclude_cols}) \<union>
      {c. c \<notin> set exclude_cols \<and> (\<exists>(n, a) \<in> set ds. c \<in> set (columns (objs s a)))}"
    by (simp only: p add_datasets.simps Cons.IH keys_add_columns)
  also have "\<dots> = fst ` set m \<union>
      {c. c \<notin> set exclude_cols \<and> (\<exists>(n, a) \<in> set (p # ds). c \<in> set (columns (objs s a)))}"
    unfolding p by (rule set_eqI) (simp, blast)
  finally show ?case .
qed

lemma values_add_datasets:
  "snd ` set (add_datasets s ds m) \<subseteq> snd ` set m \<union> fst ` set ds"
proof (induction ds arbitrary: m)
  case Nil
  then show ?case by simp
next
  case (Cons p ds)
  obtain name a where p: "p = (name, a)" by (cases p)
  have "snd ` set (add_datasets s (p # ds) m)
          \<subseteq> snd ` set (add_columns name (columns (objs s a)) m) \<union> fst ` set ds"
    unfolding p add_datasets.simps by (rule Cons.IH)
  also have "\<dots> \<subseteq> insert name (snd ` set m) \<union> fst ` set ds"
    using values_add_columns [of name "columns (objs s a)" m] by blast
  also have "\<dots> = snd ` set m \<union> fst ` set (p # ds)"
    by (simp add: p)
  finally show ?case .
qed

lemma last_write:
  assumes "c \<in> set (columns (objs s a))" and "c \<notin> set exclude_cols"
    and "\<forall>(n, b) \<in> set post. c \<notin> set (columns (objs s b))"
  shows "map_of (add_datasets s (pre @ (name, a) # post) m) c = Some name"
  using assms
  by (simp add: add_datasets_append map_of_add_datasets_absent map_of_add_columns)

text \<open>
  Claim C3. After the index is built over any collection of datasets, every column of
  every dataset that is not in the reserved list is a key of the index, no reserved name
  is a key, and the reserved names are \<^verbatim>\<open>DATETIME\<close>, \<^verbatim>\<open>CW\<close>, \<^verbatim>\<open>DATE\<close>, \<^verbatim>\<open>LCL\<close>, \<^verbatim>\<open>UCL\<close>.
\<close>

theorem index_complete_reserved_free:
  "(\<forall>(name, a) \<in> set datasets. \<forall>c \<in> set (columns (objs s a)).
      c \<notin> set exclude_cols \<longrightarrow> c \<in> set (map fst (measurement_map s datasets))) \<and>
   (\<forall>c \<in> set exclude_cols. c \<notin> set (map fst (measurement_map s datasets))) \<and>
   set exclude_cols = {''DATETIME'', ''CW'', ''DATE'', ''LCL'', ''UCL''}"
proof -
  have keys: "set (map fst (measurement_map s datasets)) =
      {c. c \<notin> set exclude_cols \<and> (\<exists>(n, a) \<in> set datasets. c \<in> set (columns (objs s a)))}"
    by (simp add: measurement_map_def keys_add_datasets)
  have "\<forall>(name, a) \<in> set datasets. \<forall>c \<in> set (columns (objs s a)).
      c \<notin> set exclude_cols \<longrightarrow> c \<in> set (map fst (measurement_map s datasets))"
    unfolding keys by blast
  moreover have "\<forall>c \<in> set exclude_cols. c \<notin> set (map fst (measurement_map s datasets))"
    unfolding keys by blast
  moreover have "set exclude_cols = {''DATETIME'', ''CW'', ''DATE'', ''LCL'', ''UCL''}"
    by (simp add: exclude_cols_def)
  ultimately show ?thesis by blast
qed

text \<open>C3 on the example: \<^verbatim>\<open>OvenB\<close> of the second dataset is a key, \<^verbatim>\<open>DATE\<close> is not.\<close>

theorem index_complete_reserved_free_witness:
  "(''dataset2'', 1) \<in> set datasets0 \<and> ''OvenB'' \<in> set (columns (objs store0 1)) \<and>
   ''OvenB'' \<notin> set exclude_cols \<and> ''OvenB'' \<in> set (map fst (measurement_map store0 datasets0)) \<and>
   ''DATE'' \<in> set exclude_cols \<and> ''DATE'' \<notin> set (map fst (measurement_map store0 datasets0))"
proof -
  have a: "(''dataset2'', 1) \<in> set datasets0" by (simp add: datasets0_def)
  have b: "''OvenB'' \<in> set (columns (objs store0 1))"
    by (simp add: store0_def frame2_def columns_def)
  have c: "''OvenB'' \<notin> set exclude_cols" by (simp add: exclude_cols_def)
  have d: "''DATE'' \<in> set exclude_cols" by (simp add: exclude_cols_def)
  note th = index_complete_reserved_free [of datasets0 store0]
  from th have 1: "\<forall>(name, a) \<in> set datasets0. \<forall>c \<in> set (columns (objs store0 a)).
      c \<notin> set exclude_cols \<longrightarrow> c \<in> set (map fst (measurement_map store0 datasets0))"
    by (rule conjunct1)
  from th have 2: "\<forall>c \<in> set exclude_cols. c \<notin> set (map fst (measurement_map store0 datasets0))"
    by (rule conjunct1 [OF conjunct2])
  from bspec [OF 1 a] have "\<forall>c \<in> set (columns (objs store0 1)).
      c \<notin> set exclude_cols \<longrightarrow> c \<in> set (map fst (measurement_map store0 datasets0))"
    by simp
  from bspec [OF this b] c have e: "''OvenB'' \<in> set (map fst (measurement_map store0 datasets0))"
    by (rule mp)
  from bspec [OF 2 d] have f: "''DATE'' \<notin> set (map fst (measurement_map store0 datasets0))" .
  from a b c e d f show ?thesis by (intro conjI)
qed

text \<open>
  Claim C2, amended. If a non-reserved column name appears in the datasets at positions
  \<open>i < j\<close> of the load order and in no dataset loaded after position \<open>j\<close>, the index maps
  it to the name of the dataset at position \<open>j\<close>; building the index raises nothing, and
  the lookup succeeds.
\<close>

theorem last_write_wins:
  assumes "i < j" and "j < length datasets"
    and "c \<in> set (columns (objs s (snd (datasets ! i))))"
    and "c \<in> set (columns (objs s (snd (datasets ! j))))"
    and "c \<notin> set exclude_cols"
    and "\<forall>k. j < k \<and> k < length datasets \<longrightarrow> c \<notin> set (columns (objs s (snd (datasets ! k))))"
  shows "dict_get (measurement_map s datasets) c = Inr (fst (datasets ! j))"
proof -
  obtain name a where nj: "datasets ! j = (name, a)" by (cases "datasets ! j")
  have split: "datasets = take j datasets @ (name, a) # drop (Suc j) datasets"
    using id_take_nth_drop [OF assms(2)] nj by simp
  have later: "\<forall>(n, b) \<in> set (drop (Suc j) datasets). c \<notin> set (columns (objs s b))"
  proof (clarify)
    fix n b assume mem: "(n, b) \<in> set (drop (Suc j) datasets)" and cin: "c \<in> set (columns (objs s b))"
    from mem obtain k where k: "k < length (drop (Suc j) datasets)" "drop (Suc j) datasets ! k = (n, b)"
      by (auto simp: in_set_conv_nth)
    then have "datasets ! (Suc j + k) = (n, b)" "Suc j + k < length datasets" by auto
    with assms(6) cin show False by (metis less_add_Suc1 add_Suc snd_conv)
  qed
  have "map_of (add_datasets s (take j datasets @ (name, a) # drop (Suc j) datasets) []) c = Some name"
    using assms(4,5) later nj by (intro last_write) auto
  then have "map_of (measurement_map s datasets) c = Some name"
    using split by (simp add: measurement_map_def)
  then show ?thesis by (simp add: dict_get_def nj)
qed

text \<open>C2 on the example: \<^verbatim>\<open>OvenA\<close> is in all three datasets and resolves to the third.\<close>

theorem last_write_wins_witness:
  "(0::nat) < 2 \<and> 2 < length datasets0 \<and>
   ''OvenA'' \<in> set (columns (objs store0 (snd (datasets0 ! 0)))) \<and>
   ''OvenA'' \<in> set (columns (objs store0 (snd (datasets0 ! 2)))) \<and>
   ''OvenA'' \<notin> set exclude_cols \<and>
   dict_get (measurement_map store0 datasets0) ''OvenA'' = Inr ''dataset3''"
proof -
  have a: "(2::nat) < length datasets0" by (simp add: datasets0_def)
  have b: "''OvenA'' \<in> set (columns (objs store0 (snd (datasets0 ! 0))))"
    by (simp add: datasets0_def store0_def frame1_def columns_def)
  have c: "''OvenA'' \<in> set (columns (objs store0 (snd (datasets0 ! 2))))"
    by (simp add: datasets0_def store0_def frame3_def columns_def)
  have d: "''OvenA'' \<notin> set exclude_cols" by (simp add: exclude_cols_def)
  have e: "\<forall>k. 2 < k \<and> k < length datasets0 \<longrightarrow>
      ''OvenA'' \<notin> set (columns (objs store0 (snd (datasets0 ! k))))"
  proof (intro allI impI)
    fix k :: nat
    assume "2 < k \<and> k < length datasets0"
    then have "2 < k \<and> k < 3" by (simp add: datasets0_def)
    then have False by arith
    then show "''OvenA'' \<notin> set (columns (objs store0 (snd (datasets0 ! k))))" ..
  qed
  have f: "fst (datasets0 ! 2) = ''dataset3''" by (simp add: datasets0_def)
  have g: "(0::nat) < 2" by simp
  from last_write_wins [OF g a b c d e] f
  have "dict_get (measurement_map store0 datasets0) ''OvenA'' = Inr ''dataset3''" by simp
  with g a b c d show ?thesis by (intro conjI)
qed

text \<open>
  Claim C2 as stated fails when a third dataset has the column too: \<^verbatim>\<open>OvenA\<close> is in the
  datasets at positions 0 and 1, and the index does not map it to the dataset at
  position 1, because the dataset at position 2 has it as well and was loaded last.
\<close>

theorem later_position_counterexample:
  "\<not> ((0::nat) < 1 \<and> 1 < length datasets0 \<and>
      ''OvenA'' \<in> set (columns (objs store0 (snd (datasets0 ! 0)))) \<and>
      ''OvenA'' \<in> set (columns (objs store0 (snd (datasets0 ! 1)))) \<and>
      ''OvenA'' \<notin> set exclude_cols
      \<longrightarrow> dict_get (measurement_map store0 datasets0) ''OvenA'' = Inr (fst (datasets0 ! 1)))"
  by (simp add: datasets0_def store0_def frame1_def frame2_def frame3_def columns_def
      exclude_cols_def measurement_map_def dict_get_def)

text \<open>
  Claim C10. Every key of the index resolves to a name that \<^verbatim>\<open>datasets\<close> holds: the two
  lookups of the script, \<^verbatim>\<open>measurement_map[m]\<close> and then \<^verbatim>\<open>datasets[dataset_name]\<close>,
  both succeed.
\<close>

theorem index_values_resolve:
  assumes "c \<in> set (map fst (measurement_map s datasets))"
  shows "\<exists>name a. dict_get (measurement_map s datasets) c = Inr name \<and>
           dict_get datasets name = Inr a \<and> (name, a) \<in> set datasets"
proof -
  from assms obtain name where look: "map_of (measurement_map s datasets) c = Some name"
    by (cases "map_of (measurement_map s datasets) c") (auto simp: map_of_eq_None_iff)
  then have "(c, name) \<in> set (measurement_map s datasets)" by (rule map_of_SomeD)
  then have "name \<in> snd ` set (measurement_map s datasets)" by force
  then have "name \<in> fst ` set datasets"
    using values_add_datasets [of s datasets "[]"] by (auto simp: measurement_map_def)
  then obtain a where res: "map_of datasets name = Some a"
    by (cases "map_of datasets name") (auto simp: map_of_eq_None_iff)
  then have "(name, a) \<in> set datasets" by (rule map_of_SomeD)
  with look res show ?thesis by (auto simp: dict_get_def)
qed

text \<open>C10 on the example: \<^verbatim>\<open>OvenB\<close> resolves to \<^verbatim>\<open>dataset2\<close>, stored at address 1.\<close>

theorem index_values_resolve_witness:
  "''OvenB'' \<in> set (map fst (measurement_map store0 datasets0)) \<and>
   dict_get (measurement_map store0 datasets0) ''OvenB'' = Inr ''dataset2'' \<and>
   dict_get datasets0 ''dataset2'' = Inr 1"
proof -
  have k: "''OvenB'' \<in> set (map fst (measurement_map store0 datasets0))"
    by (simp add: datasets0_def store0_def frame1_def frame2_def frame3_def columns_def
      exclude_cols_def measurement_map_def)
  have v: "dict_get (measurement_map store0 datasets0) ''OvenB'' = Inr ''dataset2''"
    by (simp add: datasets0_def store0_def frame1_def frame2_def frame3_def columns_def
      exclude_cols_def measurement_map_def dict_get_def)
  from index_values_resolve [OF k] v have "\<exists>a. dict_get datasets0 ''dataset2'' = Inr a" by auto
  then have "dict_get datasets0 ''dataset2'' = Inr 1" by (simp add: datasets0_def dict_get_def)
  with k v show ?thesis by (intro conjI)
qed


section \<open>Properties of the range query\<close>

lemma try_map_length: "try_map f xs = Inr ys \<Longrightarrow> length ys = length xs"
  by (induction xs arbitrary: ys) (auto split: sum.splits)

lemma try_map_total:
  "\<forall>x \<in> set xs. \<exists>y. f x = Inr y \<Longrightarrow> \<exists>ys. try_map f xs = Inr ys"
  by (induction xs) (auto split: sum.splits)

lemma try_map_fails:
  "x \<in> set xs \<Longrightarrow> f x = Inl e \<Longrightarrow> \<exists>e'. try_map f xs = Inl e'"
  by (induction xs) (auto split: sum.splits)

lemma to_datetime_cell_error: "to_datetime_cell p c = Inl e \<Longrightarrow> e = DateParseError"
  by (cases c) (auto split: coerced.splits)

lemma to_datetime_error: "to_datetime p xs = Inl e \<Longrightarrow> e = DateParseError"
  unfolding to_datetime_def
  by (induction xs) (auto split: sum.splits dest: to_datetime_cell_error)

lemma to_datetime_fails:
  assumes "c \<in> set xs" and "to_datetime_cell p c = Inl DateParseError"
  shows "to_datetime p xs = Inl DateParseError"
proof -
  from try_map_fails [of c xs "to_datetime_cell p", OF assms] obtain e where "to_datetime p xs = Inl e"
    by (auto simp: to_datetime_def)
  then show ?thesis using to_datetime_error by blast
qed

lemma cell_date_coerced:
  "to_datetime_cell p c = Inr d \<Longrightarrow> cell_date d = Inr (calendar_date p c)"
  by (cases c) (auto simp: calendar_date_def split: coerced.splits)

lemma dt_date_coerced:
  "to_datetime p ys = Inr ds \<Longrightarrow> dt_date ds = Inr (map (calendar_date p) ys)"
  unfolding to_datetime_def dt_date_def
  by (induction ys arbitrary: ds) (auto split: sum.splits simp: cell_date_coerced)

lemma to_datetime_length: "to_datetime p ys = Inr ds \<Longrightarrow> length ds = length ys"
  unfolding to_datetime_def by (rule try_map_length)

lemma keep_Cons: "keep (b # bs) (x # xs) = (if b then x # keep bs xs else keep bs xs)"
  by (simp add: keep_def)

lemma keep_Nil [simp]: "keep [] xs = []" "keep bs [] = []"
  by (simp_all add: keep_def)

lemma keep_nths:
  "length xs = length ds \<Longrightarrow> keep (map P ds) xs = nths xs {i. i < length ds \<and> P (ds ! i)}"
proof (induction xs ds rule: list_induct2)
  case Nil
  then show ?case by simp
next
  case (Cons x xs d ds)
  have "{j. Suc j < Suc (length ds) \<and> P ((d # ds) ! Suc j)} = {i. i < length ds \<and> P (ds ! i)}"
    by simp
  then show ?case
    using Cons.IH by (simp add: keep_Cons nths_Cons)
qed

lemma keep_none: "\<forall>b \<in> set bs. \<not> b \<Longrightarrow> keep bs xs = []"
  by (auto simp: keep_def filter_empty_conv dest: set_zip_leftD)

lemma dict_get_update:
  "dict_get (AList.update c xs d) c' = (if c' = c then Inr xs else dict_get d c')"
  by (simp add: dict_get_def update_conv')

lemma getitem_cols [simp]: "getitem (df\<lparr>cols := cs\<rparr>) c = dict_get cs c"
  by (simp add: getitem_def)

lemma dt_date_stamp:
  "dt_date ds = Inr dd \<Longrightarrow> list_ex is_stamp ds \<longleftrightarrow> \<not> list_all (\<lambda>d. d = None) dd"
  unfolding dt_date_def
proof (induction ds arbitrary: dd)
  case Nil
  then show ?case by simp
next
  case (Cons c ds)
  then show ?case by (cases c) (auto split: sum.splits)
qed

lemma date_mask_stamp:
  assumes "dt_date ds = Inr dd" and "list_ex is_stamp ds"
  shows "date_mask st en dd = Inr (map (in_range st en) dd)"
  using dt_date_stamp [OF assms(1)] assms(2) by (simp add: date_mask_def)

lemma range_query_success:
  assumes "getitem (objs s a) ''DATETIME'' = Inr xs" and "to_datetime (parse L xs) xs = Inr ts"
    and "getitem (objs s a) ''DATE'' = Inr ys" and "to_datetime (parse L ys) ys = Inr ds"
    and "list_ex is_stamp ds"
  shows "range_query L a st en s =
    (Inr (Suc (next_free s)),
     \<lparr>objs = (objs s)
        (next_free s := (objs s a)\<lparr>cols := AList.update ''DATE'' ds (AList.update ''DATETIME'' ts (cols (objs s a)))\<rparr>,
         Suc (next_free s) := select_rows (map (in_range st en) (map (calendar_date (parse L ys)) ys))
            ((objs s a)\<lparr>cols := AList.update ''DATE'' ds (AList.update ''DATETIME'' ts (cols (objs s a)))\<rparr>)),
      next_free = Suc (Suc (next_free s))\<rparr>)"
proof -
  have dd: "dt_date ds = Inr (map (calendar_date (parse L ys)) ys)"
    by (rule dt_date_coerced [OF assms(4)])
  have msk: "date_mask st en (map (calendar_date (parse L ys)) ys)
      = Inr (map (in_range st en) (map (calendar_date (parse L ys)) ys))"
    by (rule date_mask_stamp [OF dd assms(5)])
  have co: "coerce_dates L a s = (Inr (next_free s),
      \<lparr>objs = (objs s)(next_free s := (objs s a)\<lparr>cols := AList.update ''DATE'' ds
           (AList.update ''DATETIME'' ts (cols (objs s a)))\<rparr>),
       next_free = Suc (next_free s)\<rparr>)"
    using assms(1-4)
    by (simp add: coerce_dates_def frame_copy_def alloc_def setitem_def dict_get_update
        getitem_def [symmetric] Let_def)
  show ?thesis
    using assms(5) dd msk
    by (simp add: range_query_def co pick_dates_def date_input_def filter_dates_def alloc_def
        dict_get_update Let_def)
qed

lemma coerce_dates_Inr:
  assumes "coerce_dates L a s = (Inr df, s1)"
  shows "\<exists>xs ts ys ds. getitem (objs s a) ''DATETIME'' = Inr xs \<and> to_datetime (parse L xs) xs = Inr ts \<and>
     getitem (objs s a) ''DATE'' = Inr ys \<and> to_datetime (parse L ys) ys = Inr ds \<and>
     getitem (objs s1 df) ''DATE'' = Inr ds"
  using assms
  by (auto simp: coerce_dates_def frame_copy_def alloc_def setitem_def dict_get_update
      getitem_def [symmetric] Let_def split: sum.splits)

lemma range_query_Inr:
  assumes "range_query L a st en s = (Inr v, s')"
  shows "\<exists>xs ts ys ds. getitem (objs s a) ''DATETIME'' = Inr xs \<and> to_datetime (parse L xs) xs = Inr ts \<and>
     getitem (objs s a) ''DATE'' = Inr ys \<and> to_datetime (parse L ys) ys = Inr ds \<and>
     list_ex is_stamp ds"
proof (cases "coerce_dates L a s")
  case (Pair r s1)
  show ?thesis
  proof (cases r)
    case (Inl e)
    with Pair assms show ?thesis by (simp add: range_query_def)
  next
    case (Inr df)
    from coerce_dates_Inr [OF Pair [unfolded Inr]] obtain xs ts ys ds where
      f: "getitem (objs s a) ''DATETIME'' = Inr xs" "to_datetime (parse L xs) xs = Inr ts"
         "getitem (objs s a) ''DATE'' = Inr ys" "to_datetime (parse L ys) ys = Inr ds"
         "getitem (objs s1 df) ''DATE'' = Inr ds"
      by blast
    have "list_ex is_stamp ds"
    proof (rule ccontr)
      assume "\<not> list_ex is_stamp ds"
      with Pair Inr f(5) assms show False
        by (simp add: range_query_def pick_dates_def date_input_def)
    qed
    with f show ?thesis by blast
  qed
qed

lemma getitem_mem: "getitem df c = Inr xs \<Longrightarrow> (c, xs) \<in> set (cols df)"
  by (auto simp: getitem_def dict_get_def split: option.splits dest: map_of_SomeD)

lemma wf_frame_length:
  "wf_frame df \<Longrightarrow> getitem df c = Inr xs \<Longrightarrow> length xs = length (index df)"
  by (drule getitem_mem) (force simp: wf_frame_def)

lemma columns_update_present:
  "dict_get d c = Inr xs \<Longrightarrow> map fst (AList.update c xs' d) = map fst d"
proof -
  assume "dict_get d c = Inr xs"
  then have "map_of d c = Some xs" by (simp add: dict_get_def split: option.splits)
  then have "(c, xs) \<in> set d" by (rule map_of_SomeD)
  then have "c \<in> set (map fst d)" by force
  then show ?thesis by (simp add: update_keys)
qed

lemma getitem_select_rows:
  "getitem (select_rows msk df) c = map_sum id (keep msk) (getitem df c)"
  by (simp add: getitem_def dict_get_def select_rows_def map_of_map split: option.splits)

lemma columns_select_rows: "columns (select_rows msk df) = columns df"
  by (simp add: columns_def select_rows_def case_prod_unfold comp_def)

lemma index_select_rows: "index (select_rows msk df) = keep msk (index df)"
  by (simp add: select_rows_def)

lemma in_range_Some:
  "in_range st en d \<longleftrightarrow> (\<exists>x. d = Some x \<and> as_date st \<le> x \<and> x \<le> as_date en)"
  by (cases d) (auto simp: in_range_def date_ge_def date_le_def)

lemma keep_matching:
  assumes "length xs = length ys"
  shows "keep (map (in_range st en \<circ> calendar_date p) ys) xs = nths xs (matching p st en ys)"
  using keep_nths [of xs ys "in_range st en \<circ> calendar_date p"] assms
  by (simp add: matching_def)

lemma range_query_view:
  assumes "range_query L a st en s = (Inr v, s')"
  obtains xs ts ys ds where
    "getitem (objs s a) ''DATETIME'' = Inr xs" "to_datetime (parse L xs) xs = Inr ts"
    "getitem (objs s a) ''DATE'' = Inr ys" "to_datetime (parse L ys) ys = Inr ds"
    "list_ex is_stamp ds"
    "objs s' v = select_rows (map (in_range st en) (map (calendar_date (parse L ys)) ys))
        ((objs s a)\<lparr>cols := AList.update ''DATE'' ds (AList.update ''DATETIME'' ts (cols (objs s a)))\<rparr>)"
proof -
  from range_query_Inr [OF assms] obtain xs ts ys ds where
    f: "getitem (objs s a) ''DATETIME'' = Inr xs" "to_datetime (parse L xs) xs = Inr ts"
    "getitem (objs s a) ''DATE'' = Inr ys" "to_datetime (parse L ys) ys = Inr ds"
    "list_ex is_stamp ds"
    by blast
  from range_query_success [OF f, of st en] assms
  have "objs s' v = select_rows (map (in_range st en) (map (calendar_date (parse L ys)) ys))
        ((objs s a)\<lparr>cols := AList.update ''DATE'' ds (AList.update ''DATETIME'' ts (cols (objs s a)))\<rparr>)"
    by auto
  with f show ?thesis by (rule that)
qed

lemma nths_nth_filter:
  "nths xs A = map ((!) xs) (filter (\<lambda>i. i \<in> A) [0..<length xs])"
proof -
  have "zip xs [0..<length xs] = map (\<lambda>i. (xs ! i, i)) [0..<length xs]"
    by (rule nth_equalityI) simp_all
  then show ?thesis
    by (simp add: nths_def filter_map comp_def)
qed

lemma keep_nth_filter:
  assumes "length xs = length msk"
  shows "keep msk xs = map ((!) xs) (filter (\<lambda>i. msk ! i) [0..<length msk])"
proof -
  have "keep (map (\<lambda>b. b) msk) xs = nths xs {i. i < length msk \<and> msk ! i}"
    by (rule keep_nths [OF assms])
  also have "\<dots> = map ((!) xs) (filter (\<lambda>i. i < length msk \<and> msk ! i) [0..<length xs])"
    by (simp add: nths_nth_filter)
  also have "filter (\<lambda>i. i < length msk \<and> msk ! i) [0..<length xs]
      = filter (\<lambda>i. msk ! i) [0..<length msk]"
    using assms by (auto intro: filter_cong)
  finally show ?thesis by simp
qed

lemma frame_rows_select_rows:
  assumes "\<forall>xs \<in> set (map snd (cols df)). length xs = length (index df)"
    and "length msk = length (index df)"
  shows "frame_rows (select_rows msk df)
     = map (\<lambda>i. (index df ! i, map (\<lambda>(c, xs). (c, xs ! i)) (cols df)))
         (filter (\<lambda>i. msk ! i) [0..<length msk])"
proof -
  let ?P = "filter (\<lambda>i. msk ! i) [0..<length msk]"
  have idx: "keep msk (index df) = map ((!) (index df)) ?P"
    using assms(2) by (simp add: keep_nth_filter)
  have col: "keep msk xs = map ((!) xs) ?P" if "(c, xs) \<in> set (cols df)" for c xs
  proof -
    from that assms(1) have "length xs = length (index df)" by force
    with assms(2) show ?thesis by (simp add: keep_nth_filter)
  qed
  have "frame_rows (select_rows msk df)
      = map (\<lambda>k. (map ((!) (index df)) ?P ! k,
                  map (\<lambda>(c, xs). (c, keep msk xs ! k)) (cols df))) [0..<length ?P]"
    by (simp add: frame_rows_def select_rows_def idx case_prod_unfold comp_def)
  also have "\<dots> = map (\<lambda>k. (index df ! (?P ! k),
                  map (\<lambda>(c, xs). (c, xs ! (?P ! k))) (cols df))) [0..<length ?P]"
    by (rule map_cong [OF refl]) (auto simp: col)
  also have "\<dots> = map (\<lambda>i. (index df ! i, map (\<lambda>(c, xs). (c, xs ! i)) (cols df)))
      (map ((!) ?P) [0..<length ?P])"
    by (simp add: comp_def)
  finally show ?thesis by (simp only: map_nth)
qed

lemma update_as_map:
  "distinct (map fst al) \<Longrightarrow> k \<in> fst ` set al \<Longrightarrow>
     AList.update k v al = map (\<lambda>(k', v'). (k', if k' = k then v else v')) al"
proof (induction al)
  case Nil
  then show ?case by simp
next
  case (Cons p al)
  obtain k' v' where p: "p = (k', v')" by (cases p)
  show ?case
  proof (cases "k' = k")
    case True
    with Cons.prems p have "k \<notin> fst ` set al" by auto
    then have "map (\<lambda>(k', v'). (k', if k' = k then v else v')) al = al"
      by (intro map_idI) force
    with True p show ?thesis by simp
  next
    case False
    with Cons p show ?thesis by auto
  qed
qed

lemma to_datetime_nth:
  "to_datetime p ys = Inr ds \<Longrightarrow> i < length ys \<Longrightarrow> ds ! i = coerce_cell p (ys ! i)"
  unfolding to_datetime_def
proof (induction ys arbitrary: ds i)
  case Nil
  then show ?case by simp
next
  case (Cons y ys)
  then show ?case
    by (cases i) (auto simp: coerce_cell_def split: sum.splits)
qed

lemma getitem_unique:
  assumes "distinct (columns df)" and "(c, xs) \<in> set (cols df)"
  shows "getitem df c = Inr xs"
  using assms by (simp add: getitem_def dict_get_def columns_def)

lemma coerced_cols:
  assumes "distinct (columns df)"
    and "getitem df ''DATETIME'' = Inr xs" and "getitem df ''DATE'' = Inr ys"
  shows "AList.update ''DATE'' ds (AList.update ''DATETIME'' ts (cols df))
     = map (\<lambda>(c, zs). (c, if c = ''DATE'' then ds else if c = ''DATETIME'' then ts else zs)) (cols df)"
proof -
  have k1: "''DATETIME'' \<in> fst ` set (cols df)"
    using getitem_mem [OF assms(2)] by force
  have k2: "''DATE'' \<in> fst ` set (cols df)"
    using getitem_mem [OF assms(3)] by force
  have d: "distinct (map fst (cols df))" using assms(1) by (simp add: columns_def)
  have u1: "AList.update ''DATETIME'' ts (cols df)
      = map (\<lambda>(c, zs). (c, if c = ''DATETIME'' then ts else zs)) (cols df)"
    by (rule update_as_map [OF d k1])
  have d': "distinct (map fst (AList.update ''DATETIME'' ts (cols df)))"
    by (rule distinct_update [OF d])
  have k2': "''DATE'' \<in> fst ` set (AList.update ''DATETIME'' ts (cols df))"
    using k2 by (simp add: dom_update)
  show ?thesis
    unfolding update_as_map [OF d' k2'] unfolding u1
    by (auto simp: case_prod_unfold)
qed

lemma frame_rows_coerced:
  assumes "wf_frame df"
    and "getitem df ''DATETIME'' = Inr xs" and "to_datetime (parse L xs) xs = Inr ts"
    and "getitem df ''DATE'' = Inr ys" and "to_datetime (parse L ys) ys = Inr ds"
    and "i < length (index df)"
  shows "(index df ! i, map (\<lambda>(c, zs). (c, zs ! i))
            (AList.update ''DATE'' ds (AList.update ''DATETIME'' ts (cols df))))
     = source_row L df i"
proof -
  have dist: "distinct (columns df)" using assms(1) by (simp add: wf_frame_def)
  have lx: "length xs = length (index df)" by (rule wf_frame_length [OF assms(1,2)])
  have ly: "length ys = length (index df)" by (rule wf_frame_length [OF assms(1,4)])
  have "map (\<lambda>(c, zs). (c, zs ! i))
          (map (\<lambda>(c, zs). (c, if c = ''DATE'' then ds else if c = ''DATETIME'' then ts else zs)) (cols df))
      = map (\<lambda>(c, zs). (c, if c = ''DATETIME'' \<or> c = ''DATE''
                           then coerce_cell (parse L zs) (zs ! i) else zs ! i)) (cols df)"
  proof (simp only: map_map, rule map_cong [OF refl])
    fix p assume mem: "p \<in> set (cols df)"
    obtain c zs where p: "p = (c, zs)" by (cases p)
    from mem p have g: "getitem df c = Inr zs" using getitem_unique [OF dist] by simp
    show "((\<lambda>(c, zs). (c, zs ! i)) \<circ>
           (\<lambda>(c, zs). (c, if c = ''DATE'' then ds else if c = ''DATETIME'' then ts else zs))) p
        = (case p of (c, zs) \<Rightarrow> (c, if c = ''DATETIME'' \<or> c = ''DATE''
                           then coerce_cell (parse L zs) (zs ! i) else zs ! i))"
    proof (cases "c = ''DATE''")
      case True
      with g assms(4) have "zs = ys" by simp
      with True p to_datetime_nth [OF assms(5), of i] assms(6) ly show ?thesis by simp
    next
      case False
      show ?thesis
      proof (cases "c = ''DATETIME''")
        case True
        with g assms(2) have "zs = xs" by simp
        with True p to_datetime_nth [OF assms(3), of i] assms(6) lx show ?thesis by simp
      next
        case F2: False
        with False p show ?thesis by simp
      qed
    qed
  qed
  then show ?thesis
    unfolding coerced_cols [OF dist assms(2,4)] by (simp add: source_row_def)
qed

lemma source_row_inj:
  assumes "distinct (index df)" and "i < length (index df)" and "j < length (index df)"
    and "source_row L df i = source_row L df j"
  shows "i = j"
  using assms by (simp add: source_row_def nth_eq_iff_index_eq)

lemma range_query_rows:
  assumes "range_query L a st en s = (Inr v, s')" and "wf_frame (objs s a)"
    and "getitem (objs s a) ''DATE'' = Inr ys"
  shows "frame_rows (objs s' v) = map (source_row L (objs s a))
      (filter (\<lambda>i. in_range st en (calendar_date (parse L ys) (ys ! i))) [0..<length ys])"
proof -
  let ?df = "objs s a"
  from assms(1) obtain xs ts ys' ds where
    f: "getitem ?df ''DATETIME'' = Inr xs" "to_datetime (parse L xs) xs = Inr ts"
       "getitem ?df ''DATE'' = Inr ys'" "to_datetime (parse L ys') ys' = Inr ds"
    and v: "objs s' v = select_rows (map (in_range st en) (map (calendar_date (parse L ys')) ys'))
        (?df\<lparr>cols := AList.update ''DATE'' ds (AList.update ''DATETIME'' ts (cols ?df))\<rparr>)"
    by (rule range_query_view)
  from f(3) assms(3) have ys: "ys' = ys" by simp
  note f = f [unfolded ys] and v = v [unfolded ys]
  let ?co = "?df\<lparr>cols := AList.update ''DATE'' ds (AList.update ''DATETIME'' ts (cols ?df))\<rparr>"
  let ?msk = "map (in_range st en) (map (calendar_date (parse L ys)) ys)"
  have dist: "distinct (columns ?df)" using assms(2) by (simp add: wf_frame_def)
  have ly: "length ys = length (index ?df)" by (rule wf_frame_length [OF assms(2) f(3)])
  have lx: "length xs = length (index ?df)" by (rule wf_frame_length [OF assms(2) f(1)])
  have lens: "\<forall>zs \<in> set (map snd (cols ?co)). length zs = length (index ?co)"
    using assms(2) ly lx to_datetime_length [OF f(2)] to_datetime_length [OF f(4)]
    by (auto simp: coerced_cols [OF dist f(1,3)] wf_frame_def)
  have lm: "length ?msk = length (index ?co)" using ly by simp
  have "frame_rows (objs s' v)
      = map (\<lambda>i. (index ?co ! i, map (\<lambda>(c, zs). (c, zs ! i)) (cols ?co)))
          (filter (\<lambda>i. ?msk ! i) [0..<length ?msk])"
    unfolding v by (rule frame_rows_select_rows [OF lens lm])
  also have "\<dots> = map (source_row L ?df) (filter (\<lambda>i. ?msk ! i) [0..<length ?msk])"
  proof (rule map_cong [OF refl])
    fix i assume "i \<in> set (filter (\<lambda>i. ?msk ! i) [0..<length ?msk])"
    then have "i < length (index ?df)" using ly by simp
    from frame_rows_coerced [OF assms(2) f this]
    show "(index ?co ! i, map (\<lambda>(c, zs). (c, zs ! i)) (cols ?co)) = source_row L ?df i"
      by simp
  qed
  also have "filter (\<lambda>i. ?msk ! i) [0..<length ?msk]
      = filter (\<lambda>i. in_range st en (calendar_date (parse L ys) (ys ! i))) [0..<length ys]"
    by (auto intro: filter_cong)
  finally show ?thesis .
qed

text \<open>
  Claim C1. Whenever the range query returns a view, row \<open>i\<close> of the dataset, that is its
  label together with all its values, the two date values in coerced form, is a row of
  the view if and only if its \<^verbatim>\<open>DATE\<close> has a calendar date \<open>d\<close> with \<open>start \<le> d \<le> end\<close>;
  and the view has no other rows. Only the day of the timestamp is compared, its time of
  day is not looked at; a row whose \<^verbatim>\<open>DATE\<close> is missing has no calendar date and is not
  in the view.
\<close>

theorem range_filter_correct:
  assumes "range_query L a start_date end_date s = (Inr v, s')"
    and "wf_frame (objs s a)"
    and "getitem (objs s a) ''DATE'' = Inr ys"
  shows "(\<forall>i < length ys.
            source_row L (objs s a) i \<in> set (frame_rows (objs s' v)) \<longleftrightarrow>
            (\<exists>d. calendar_date (parse L ys) (ys ! i) = Some d \<and>
                 as_date start_date \<le> d \<and> d \<le> as_date end_date)) \<and>
         (\<forall>r \<in> set (frame_rows (objs s' v)). \<exists>i < length ys. r = source_row L (objs s a) i)"
proof -
  let ?df = "objs s a"
  let ?P = "\<lambda>i. in_range start_date end_date (calendar_date (parse L ys) (ys ! i))"
  have rows: "frame_rows (objs s' v) = map (source_row L ?df) (filter ?P [0..<length ys])"
    by (rule range_query_rows [OF assms])
  have ly: "length ys = length (index ?df)" by (rule wf_frame_length [OF assms(2,3)])
  have dist: "distinct (index ?df)" using assms(2) by (simp add: wf_frame_def)
  have a: "\<forall>i < length ys. source_row L ?df i \<in> set (frame_rows (objs s' v)) \<longleftrightarrow>
            (\<exists>d. calendar_date (parse L ys) (ys ! i) = Some d \<and>
                 as_date start_date \<le> d \<and> d \<le> as_date end_date)"
  proof (intro allI impI)
    fix i assume i: "i < length ys"
    have "source_row L ?df i \<in> set (frame_rows (objs s' v)) \<longleftrightarrow>
        (\<exists>j. j < length ys \<and> ?P j \<and> source_row L ?df i = source_row L ?df j)"
      unfolding rows by auto
    also have "\<dots> \<longleftrightarrow> ?P i"
      using source_row_inj [OF dist, of i _ L] i ly by auto
    also have "\<dots> \<longleftrightarrow> (\<exists>d. calendar_date (parse L ys) (ys ! i) = Some d \<and>
                 as_date start_date \<le> d \<and> d \<le> as_date end_date)"
      by (simp add: in_range_Some)
    finally show "source_row L ?df i \<in> set (frame_rows (objs s' v)) \<longleftrightarrow>
            (\<exists>d. calendar_date (parse L ys) (ys ! i) = Some d \<and>
                 as_date start_date \<le> d \<and> d \<le> as_date end_date)" .
  qed
  have b: "\<forall>r \<in> set (frame_rows (objs s' v)). \<exists>i < length ys. r = source_row L ?df i"
    unfolding rows by auto
  from a b show ?thesis ..
qed

text \<open>
  C1 on the example, for the range from day 2 to day 2: the row dated day 2, 8 o'clock is
  in the view with its values, the row dated day 1 is not.
\<close>

theorem range_filter_correct_witness:
  "range_query lib0 0 (PDate 2) (PDate 2) store0
     = (Inr 4, snd (range_query lib0 0 (PDate 2) (PDate 2) store0)) \<and>
   wf_frame (objs store0 0) \<and>
   getitem (objs store0 0) ''DATE'' = Inr [Other ''d1'', Other ''d2 8h'', Other ''d3''] \<and>
   source_row lib0 (objs store0 0) 1
     = (1, [(''DATETIME'', Stamp \<lparr>day = 2, tod = 8\<rparr>), (''DATE'', Stamp \<lparr>day = 2, tod = 8\<rparr>),
            (''OvenA'', Other ''181''), (''LCL'', Other ''170'')]) \<and>
   source_row lib0 (objs store0 0) 1
     \<in> set (frame_rows (objs (snd (range_query lib0 0 (PDate 2) (PDate 2) store0)) 4)) \<and>
   source_row lib0 (objs store0 0) 0
     \<notin> set (frame_rows (objs (snd (range_query lib0 0 (PDate 2) (PDate 2) store0)) 4))"
proof -
  let ?s' = "snd (range_query lib0 0 (PDate 2) (PDate 2) store0)"
  let ?ys = "[Other ''d1'', Other ''d2 8h'', Other ''d3'']"
  have "fst (range_query lib0 0 (PDate 2) (PDate 2) store0) = Inr 4"
    by code_simp
  then have q: "range_query lib0 0 (PDate 2) (PDate 2) store0 = (Inr 4, ?s')"
    by (simp add: prod_eq_iff)
  have w: "wf_frame (objs store0 0)"
    by (simp add: store0_def frame1_def wf_frame_def columns_def)
  have g: "getitem (objs store0 0) ''DATE'' = Inr ?ys"
    by (simp add: store0_def frame1_def getitem_def dict_get_def)
  have r: "source_row lib0 (objs store0 0) 1
     = (1, [(''DATETIME'', Stamp \<lparr>day = 2, tod = 8\<rparr>), (''DATE'', Stamp \<lparr>day = 2, tod = 8\<rparr>),
            (''OvenA'', Other ''181''), (''LCL'', Other ''170'')])"
    by code_simp
  have d1: "calendar_date (parse lib0 ?ys) (?ys ! 0) = Some 1"
    by (simp add: calendar_date_def lib0_def parse0_def)
  have d2: "calendar_date (parse lib0 ?ys) (?ys ! 1) = Some 2"
    by (simp add: calendar_date_def lib0_def parse0_def)
  note th = range_filter_correct [OF q w g, THEN conjunct1]
  from th [rule_format, of 1] d2
  have in1: "source_row lib0 (objs store0 0) 1 \<in> set (frame_rows (objs ?s' 4))" by simp
  from th [rule_format, of 0] d1
  have out0: "source_row lib0 (objs store0 0) 0 \<notin> set (frame_rows (objs ?s' 4))" by simp
  from q w g r in1 out0 show ?thesis by (intro conjI)
qed

text \<open>
  Claim C4. The view holds the rows at the matching positions in increasing position,
  that is in the order of the source dataset: its labels, its two coerced columns and
  every other column are the source's, restricted by \<^const>\<open>nths\<close> to the matching
  positions, and the columns keep their names and order.
\<close>

theorem order_preserved:
  assumes "range_query L a start_date end_date s = (Inr v, s')" and "wf_frame (objs s a)"
  shows "\<exists>xs ts ys ds.
      getitem (objs s a) ''DATETIME'' = Inr xs \<and> to_datetime (parse L xs) xs = Inr ts \<and>
      getitem (objs s a) ''DATE'' = Inr ys \<and> to_datetime (parse L ys) ys = Inr ds \<and>
      index (objs s' v) = nths (index (objs s a)) (matching (parse L ys) start_date end_date ys) \<and>
      columns (objs s' v) = columns (objs s a) \<and>
      getitem (objs s' v) ''DATETIME'' = Inr (nths ts (matching (parse L ys) start_date end_date ys)) \<and>
      getitem (objs s' v) ''DATE'' = Inr (nths ds (matching (parse L ys) start_date end_date ys)) \<and>
      (\<forall>c zs. c \<noteq> ''DATETIME'' \<and> c \<noteq> ''DATE'' \<and> getitem (objs s a) c = Inr zs \<longrightarrow>
         getitem (objs s' v) c = Inr (nths zs (matching (parse L ys) start_date end_date ys)))"
proof -
  from assms(1) obtain xs ts ys ds where
    f: "getitem (objs s a) ''DATETIME'' = Inr xs" "to_datetime (parse L xs) xs = Inr ts"
       "getitem (objs s a) ''DATE'' = Inr ys" "to_datetime (parse L ys) ys = Inr ds"
    and v: "objs s' v = select_rows (map (in_range start_date end_date) (map (calendar_date (parse L ys)) ys))
        ((objs s a)\<lparr>cols := AList.update ''DATE'' ds (AList.update ''DATETIME'' ts (cols (objs s a)))\<rparr>)"
    by (rule range_query_view)
  let ?K = "matching (parse L ys) start_date end_date ys"
  have len: "length (index (objs s a)) = length ys"
    using wf_frame_length [OF assms(2) f(3)] by simp
  have lxs: "length ts = length ys"
    using wf_frame_length [OF assms(2) f(1)] to_datetime_length [OF f(2)] len by simp
  have lds: "length ds = length ys"
    using to_datetime_length [OF f(4)] .
  have idx: "index (objs s' v) = nths (index (objs s a)) ?K"
    unfolding v using len by (simp add: index_select_rows keep_matching)
  have "map fst (AList.update ''DATE'' ds (AList.update ''DATETIME'' ts (cols (objs s a))))
          = map fst (cols (objs s a))"
    using f(1,3) by (simp add: getitem_def columns_update_present dict_get_update)
  then have cs: "columns (objs s' v) = columns (objs s a)"
    unfolding v by (simp add: columns_select_rows) (simp add: columns_def)
  have dt: "getitem (objs s' v) ''DATETIME'' = Inr (nths ts ?K)"
    unfolding v using lxs by (simp add: getitem_select_rows dict_get_update keep_matching)
  have da: "getitem (objs s' v) ''DATE'' = Inr (nths ds ?K)"
    unfolding v using lds by (simp add: getitem_select_rows dict_get_update keep_matching)
  have other: "\<forall>c zs. c \<noteq> ''DATETIME'' \<and> c \<noteq> ''DATE'' \<and> getitem (objs s a) c = Inr zs \<longrightarrow>
         getitem (objs s' v) c = Inr (nths zs ?K)"
  proof (intro allI impI)
    fix c zs
    assume h: "c \<noteq> ''DATETIME'' \<and> c \<noteq> ''DATE'' \<and> getitem (objs s a) c = Inr zs"
    then have "length zs = length ys"
      using wf_frame_length [OF assms(2), of c zs] len by simp
    with h show "getitem (objs s' v) c = Inr (nths zs ?K)"
      unfolding v
      by (simp add: getitem_select_rows dict_get_update keep_matching getitem_def [symmetric])
  qed
  from f idx cs dt da other show ?thesis by blast
qed

text \<open>C4 on the example: the range from day 2 to day 3 keeps rows 1 and 2, in this order.\<close>

theorem order_preserved_witness:
  "range_query lib0 0 (PDate 2) (PDate 3) store0
     = (Inr 4, snd (range_query lib0 0 (PDate 2) (PDate 3) store0)) \<and>
   wf_frame (objs store0 0) \<and>
   index (objs (snd (range_query lib0 0 (PDate 2) (PDate 3) store0)) 4) = [1, 2] \<and>
   getitem (objs (snd (range_query lib0 0 (PDate 2) (PDate 3) store0)) 4) ''OvenA''
     = Inr [Other ''181'', Other ''179'']"
proof -
  let ?s' = "snd (range_query lib0 0 (PDate 2) (PDate 3) store0)"
  let ?ys = "[Other ''d1'', Other ''d2 8h'', Other ''d3'']"
  have "fst (range_query lib0 0 (PDate 2) (PDate 3) store0) = Inr 4"
    by code_simp
  then have q: "range_query lib0 0 (PDate 2) (PDate 3) store0 = (Inr 4, ?s')"
    by (simp add: prod_eq_iff)
  have w: "wf_frame (objs store0 0)"
    by (simp add: store0_def frame1_def wf_frame_def columns_def)
  have g: "getitem (objs store0 0) ''DATE'' = Inr ?ys"
    by (simp add: store0_def frame1_def getitem_def dict_get_def)
  have o: "getitem (objs store0 0) ''OvenA'' = Inr [Other ''180'', Other ''181'', Other ''179'']"
    by (simp add: store0_def frame1_def getitem_def dict_get_def)
  have i: "index (objs store0 0) = [0, 1, 2]"
    by (simp add: store0_def frame1_def)
  have k: "matching (parse lib0 ?ys) (PDate 2) (PDate 3) ?ys = {1, 2}"
    by (auto simp: matching_def in_range_Some calendar_date_def lib0_def parse0_def
        less_Suc_eq numeral_3_eq_3)
  from order_preserved [OF q w] g obtain
    idx: "index (objs ?s' 4) = nths (index (objs store0 0)) (matching (parse lib0 ?ys) (PDate 2) (PDate 3) ?ys)"
    and oth: "\<forall>c zs. c \<noteq> ''DATETIME'' \<and> c \<noteq> ''DATE'' \<and> getitem (objs store0 0) c = Inr zs \<longrightarrow>
         getitem (objs ?s' 4) c = Inr (nths zs (matching (parse lib0 ?ys) (PDate 2) (PDate 3) ?ys))"
    by auto
  from idx have r1: "index (objs ?s' 4) = [1, 2]"
    unfolding i k by (simp add: nths_Cons)
  from oth o have "getitem (objs ?s' 4) ''OvenA''
      = Inr (nths [Other ''180'', Other ''181'', Other ''179''] (matching (parse lib0 ?ys) (PDate 2) (PDate 3) ?ys))"
    by simp
  then have r2: "getitem (objs ?s' 4) ''OvenA'' = Inr [Other ''181'', Other ''179'']"
    unfolding k by (simp add: nths_Cons)
  from q w r1 r2 show ?thesis by (intro conjI)
qed


section \<open>The store, failing coercion and the empty result\<close>

lemma in_range_reversed: "as_date en < as_date st \<Longrightarrow> \<not> in_range st en d"
  by (cases d) (auto simp: in_range_def date_ge_def date_le_def)

lemma rows_of_empty: "index df = [] \<Longrightarrow> rows_of df = []"
  by (simp add: rows_of_def)

lemma coerce_dates_frame:
  assumes "coerce_dates L a s = (r, s')"
  shows "next_free s' = Suc (next_free s) \<and> (\<forall>b < next_free s. objs s' b = objs s b)"
  using assms
  by (auto simp: coerce_dates_def frame_copy_def alloc_def setitem_def Let_def
      split: sum.splits)

lemma filter_dates_frame:
  assumes "filter_dates df st en s = (r, s')"
  shows "next_free s \<le> next_free s' \<and> (\<forall>b < next_free s. objs s' b = objs s b)"
  using assms
  by (auto simp: filter_dates_def alloc_def Let_def split: sum.splits)

lemma range_query_frame:
  assumes "range_query L a st en s = (r, s')"
  shows "next_free s \<le> next_free s' \<and> (\<forall>b < next_free s. objs s' b = objs s b)"
proof (cases "coerce_dates L a s")
  case (Pair r1 s1)
  note c = coerce_dates_frame [OF Pair]
  show ?thesis
  proof (cases r1)
    case (Inl e)
    with Pair assms c show ?thesis by (simp add: range_query_def)
  next
    case (Inr df)
    show ?thesis
    proof (cases "pick_dates df st en s1")
      case (Inl e)
      with Pair Inr assms c show ?thesis by (simp add: range_query_def)
    next
      case picked: (Inr p)
      obtain sd ed where p: "p = (sd, ed)" by (cases p)
      with Pair Inr picked assms have "filter_dates df sd ed s1 = (r, s')"
        by (simp add: range_query_def)
      from filter_dates_frame [OF this] c show ?thesis by auto
    qed
  qed
qed

lemma run_script_frame:
  assumes "run_script L datasets sel st en s = (r, s')" and "b < next_free s"
  shows "objs s' b = objs s b"
  using assms
  by (auto simp: run_script_def Let_def split: list.splits sum.splits prod.splits option.splits
      dest!: range_query_frame)

text \<open>
  Claim C9. Whatever the selection and the range, and whether the script ends normally
  or raises, every frame that \<^verbatim>\<open>datasets\<close> refers to is the same before and after: the
  assignments of lines 177 and 178 change the copy, and the filter makes a new frame.
\<close>

theorem table_store_unchanged:
  assumes "\<forall>(name, a) \<in> set datasets. a < next_free s"
  shows "\<forall>(name, a) \<in> set datasets.
     objs (snd (run_script L datasets selected_measures start_date end_date s)) a = objs s a"
proof (clarify)
  fix name a
  assume "(name, a) \<in> set datasets"
  with assms have "a < next_free s" by auto
  then show "objs (snd (run_script L datasets selected_measures start_date end_date s)) a = objs s a"
    by (intro run_script_frame [of L datasets selected_measures start_date end_date s
          "fst (run_script L datasets selected_measures start_date end_date s)"]) simp_all
qed

text \<open>
  C9 on the example: the script draws the chart for \<^verbatim>\<open>OvenB\<close>, the three loaded frames
  are as before, and the copy at address 3 holds the coerced \<^verbatim>\<open>DATE\<close>.
\<close>

theorem table_store_unchanged_witness:
  "map snd datasets0 = [0, 1, 2] \<and> next_free store0 = 3 \<and>
   fst (run_script lib0 datasets0 [''OvenB''] (PDate 1) (PDate 3) store0)
     = Inr (Rendered \<lparr>view = 4, shown = Chart,
          excel_data = ''FilteredData:DATETIME;DATE;OvenA;OvenB;|T;T;150;151;|'',
          csv_data = ''DATETIME;DATE;OvenA;OvenB;|T;T;150;151;|''\<rparr>) \<and>
   objs (snd (run_script lib0 datasets0 [''OvenB''] (PDate 1) (PDate 3) store0)) 0 = frame1 \<and>
   objs (snd (run_script lib0 datasets0 [''OvenB''] (PDate 1) (PDate 3) store0)) 1 = frame2 \<and>
   objs (snd (run_script lib0 datasets0 [''OvenB''] (PDate 1) (PDate 3) store0)) 2 = frame3 \<and>
   getitem (objs (snd (run_script lib0 datasets0 [''OvenB''] (PDate 1) (PDate 3) store0)) 3) ''DATE''
     = Inr [Stamp \<lparr>day = 1, tod = 0\<rparr>]"
proof -
  let ?s' = "snd (run_script lib0 datasets0 [''OvenB''] (PDate 1) (PDate 3) store0)"
  have h: "\<forall>(name, a) \<in> set datasets0. a < next_free store0"
    by (simp add: datasets0_def store0_def)
  note th = table_store_unchanged [OF h, of lib0 "[''OvenB'']" "PDate 1" "PDate 3"]
  have m0: "(''dataset1'', 0) \<in> set datasets0" and m1: "(''dataset2'', 1) \<in> set datasets0"
    and m2: "(''dataset3'', 2) \<in> set datasets0"
    by (simp_all add: datasets0_def)
  from bspec [OF th m0] have r0: "objs ?s' 0 = frame1" by (simp add: store0_def)
  from bspec [OF th m1] have r1: "objs ?s' 1 = frame2" by (simp add: store0_def)
  from bspec [OF th m2] have r2: "objs ?s' 2 = frame3" by (simp add: store0_def)
  have f: "fst (run_script lib0 datasets0 [''OvenB''] (PDate 1) (PDate 3) store0)
     = Inr (Rendered \<lparr>view = 4, shown = Chart,
          excel_data = ''FilteredData:DATETIME;DATE;OvenA;OvenB;|T;T;150;151;|'',
          csv_data = ''DATETIME;DATE;OvenA;OvenB;|T;T;150;151;|''\<rparr>)"
    by code_simp
  have c: "getitem (objs ?s' 3) ''DATE'' = Inr [Stamp \<lparr>day = 1, tod = 0\<rparr>]"
    by code_simp
  have a: "map snd datasets0 = [0, 1, 2]" by (simp add: datasets0_def)
  have n: "next_free store0 = 3" by (simp add: store0_def)
  from a n f r0 r1 r2 c show ?thesis by (intro conjI)
qed

text \<open>
  Claim C8. If the \<^verbatim>\<open>DATETIME\<close> or the \<^verbatim>\<open>DATE\<close> column of the dataset holds a value that
  does not parse (as a value of its column), the range query raises the parse error and
  returns no view; the store then holds one new frame only, the copy, so the filter has
  not run.
\<close>

theorem coercion_fails_loudly:
  assumes "getitem (objs s a) ''DATETIME'' = Inr xs" and "getitem (objs s a) ''DATE'' = Inr ys"
    and "(c \<in> set xs \<and> to_datetime_cell (parse L xs) c = Inl DateParseError) \<or>
         (c \<in> set ys \<and> to_datetime_cell (parse L ys) c = Inl DateParseError)"
  shows "\<exists>s'. range_query L a start_date end_date s = (Inl DateParseError, s') \<and>
           next_free s' = Suc (next_free s)"
proof (cases "to_datetime (parse L xs) xs")
  case (Inl e)
  then have "e = DateParseError" by (rule to_datetime_error)
  with Inl assms(1) show ?thesis
    by (simp add: range_query_def coerce_dates_def frame_copy_def alloc_def Let_def
        getitem_def [symmetric])
next
  case (Inr ts)
  have "\<not> (c \<in> set xs \<and> to_datetime_cell (parse L xs) c = Inl DateParseError)"
  proof
    assume "c \<in> set xs \<and> to_datetime_cell (parse L xs) c = Inl DateParseError"
    then have "to_datetime (parse L xs) xs = Inl DateParseError"
      by (intro to_datetime_fails [of c]) simp_all
    with Inr show False by simp
  qed
  with assms(3) have "c \<in> set ys" "to_datetime_cell (parse L ys) c = Inl DateParseError"
    by auto
  from to_datetime_fails [OF this] Inr assms(1,2) show ?thesis
    by (simp add: range_query_def coerce_dates_def frame_copy_def alloc_def setitem_def Let_def
        dict_get_update getitem_def [symmetric])
qed

text \<open>C8 on the example: the third dataset has a \<^verbatim>\<open>DATE\<close> that does not parse.\<close>

theorem coercion_fails_loudly_witness:
  "getitem (objs store0 2) ''DATETIME'' = Inr [Other ''d2 8h''] \<and>
   getitem (objs store0 2) ''DATE'' = Inr [Other ''someday''] \<and>
   Other ''someday'' \<in> set [Other ''someday''] \<and>
   to_datetime_cell (parse lib0 [Other ''someday'']) (Other ''someday'') = Inl DateParseError \<and>
   (\<exists>s'. range_query lib0 2 (PDate 1) (PDate 3) store0 = (Inl DateParseError, s') \<and>
         next_free s' = Suc (next_free store0))"
proof -
  have h1: "getitem (objs store0 2) ''DATETIME'' = Inr [Other ''d2 8h'']"
    by (simp add: store0_def frame3_def getitem_def dict_get_def)
  have h2: "getitem (objs store0 2) ''DATE'' = Inr [Other ''someday'']"
    by (simp add: store0_def frame3_def getitem_def dict_get_def)
  have h3: "Other ''someday'' \<in> set [Other ''someday'']"
    by simp
  have h4: "to_datetime_cell (parse lib0 [Other ''someday'']) (Other ''someday'') = Inl DateParseError"
    by (simp add: lib0_def parse0_def)
  from coercion_fails_loudly [OF h1 h2 disjI2 [OF conjI [OF h3 h4]], of "PDate 1" "PDate 3"]
    h1 h2 h3 h4
  show ?thesis by (intro conjI)
qed

text \<open>
  Claim C5, amended. If the two date columns coerce, at least one \<^verbatim>\<open>DATE\<close> of the dataset
  is not missing, and no row satisfies the date predicate or the end is before the start,
  the script ends normally: the view has no row, the warning is shown in place of the
  chart, and both exports are the encoding of the header row of column names with no
  data row.
\<close>

theorem empty_range:
  assumes "selected_measures = m # ms"
    and "dict_get (measurement_map s datasets) m = Inr dataset_name"
    and "dict_get datasets dataset_name = Inr a"
    and "getitem (objs s a) ''DATETIME'' = Inr xs" and "to_datetime (parse L xs) xs = Inr ts"
    and "getitem (objs s a) ''DATE'' = Inr ys" and "to_datetime (parse L ys) ys = Inr ds"
    and "list_ex is_stamp ds"
    and "as_date end_date < as_date start_date \<or>
         (\<forall>y \<in> set ys. \<not> in_range start_date end_date (calendar_date (parse L ys) y))"
  shows "\<exists>r s'. run_script L datasets selected_measures start_date end_date s = (Inr (Rendered r), s') \<and>
       index (objs s' (view r)) = [] \<and> rows_of (objs s' (view r)) = [] \<and>
       columns (objs s' (view r)) = columns (objs s a) \<and> shown r = Warning \<and>
       csv_data r = encode_csv L \<lparr>header = columns (objs s a), body = []\<rparr> \<and>
       excel_data r = encode_xlsx L ''FilteredData'' \<lparr>header = columns (objs s a), body = []\<rparr>"
proof -
  let ?mask = "map (in_range start_date end_date) (map (calendar_date (parse L ys)) ys)"
  let ?co = "(objs s a)\<lparr>cols := AList.update ''DATE'' ds (AList.update ''DATETIME'' ts (cols (objs s a)))\<rparr>"
  let ?view = "select_rows ?mask ?co"
  let ?s' = "\<lparr>objs = (objs s)(next_free s := ?co, Suc (next_free s) := ?view),
             next_free = Suc (Suc (next_free s))\<rparr>"
  have rq: "range_query L a start_date end_date s = (Inr (Suc (next_free s)), ?s')"
    by (rule range_query_success [OF assms(4-8)])
  have none: "\<forall>b \<in> set ?mask. \<not> b"
    using assms(9) by (auto simp: in_range_reversed)
  have idx: "index ?view = []"
    by (simp only: index_select_rows keep_none [OF none])
  have "map fst (AList.update ''DATE'' ds (AList.update ''DATETIME'' ts (cols (objs s a))))
          = map fst (cols (objs s a))"
    using assms(4,6) by (simp add: getitem_def columns_update_present dict_get_update)
  then have cs: "columns ?view = columns (objs s a)"
    by (simp add: columns_select_rows) (simp add: columns_def)
  have emp: "frame_empty ?view" using idx by (simp add: frame_empty_def)
  have tab: "table_of ?view = \<lparr>header = columns (objs s a), body = []\<rparr>"
    using cs rows_of_empty [OF idx] by (simp add: table_of_def)
  let ?r = "\<lparr>view = Suc (next_free s), shown = Warning,
             excel_data = encode_xlsx L ''FilteredData'' \<lparr>header = columns (objs s a), body = []\<rparr>,
             csv_data = encode_csv L \<lparr>header = columns (objs s a), body = []\<rparr>\<rparr>"
  have "run_script L datasets selected_measures start_date end_date s = (Inr (Rendered ?r), ?s')"
    using assms(1-3) rq emp tab
    by (simp add: run_script_def Let_def to_excel_def to_csv_def)
  moreover have "objs ?s' (view ?r) = ?view" by simp
  ultimately show ?thesis
    using idx cs rows_of_empty [OF idx]
    by (intro exI [of _ ?r] exI [of _ ?s']) (simp del: fun_upd_apply)
qed

text \<open>C5 on the example, with the start (day 3) after the end (day 2).\<close>

theorem empty_range_witness:
  "dict_get (measurement_map store0 datasets0) ''OvenB'' = Inr ''dataset2'' \<and>
   dict_get datasets0 ''dataset2'' = Inr 1 \<and>
   getitem (objs store0 1) ''DATETIME'' = Inr [Other ''d1 8h''] \<and>
   to_datetime (parse lib0 [Other ''d1 8h'']) [Other ''d1 8h''] = Inr [Stamp \<lparr>day = 1, tod = 8\<rparr>] \<and>
   getitem (objs store0 1) ''DATE'' = Inr [Other ''d1''] \<and>
   to_datetime (parse lib0 [Other ''d1'']) [Other ''d1''] = Inr [Stamp \<lparr>day = 1, tod = 0\<rparr>] \<and>
   list_ex is_stamp [Stamp \<lparr>day = 1, tod = 0\<rparr>] \<and>
   as_date (PDate 2) < as_date (PDate 3) \<and>
   (\<exists>r s'. run_script lib0 datasets0 [''OvenB''] (PDate 3) (PDate 2) store0 = (Inr (Rendered r), s') \<and>
      index (objs s' (view r)) = [] \<and> rows_of (objs s' (view r)) = [] \<and> shown r = Warning \<and>
      csv_data r = ''DATETIME;DATE;OvenA;OvenB;|'' \<and>
      excel_data r = ''FilteredData:DATETIME;DATE;OvenA;OvenB;|'')"
proof -
  have h2: "dict_get (measurement_map store0 datasets0) ''OvenB'' = Inr ''dataset2''"
    by (simp add: datasets0_def store0_def frame1_def frame2_def frame3_def columns_def
      exclude_cols_def measurement_map_def dict_get_def)
  have h3: "dict_get datasets0 ''dataset2'' = Inr 1"
    by (simp add: datasets0_def dict_get_def)
  have h4: "getitem (objs store0 1) ''DATETIME'' = Inr [Other ''d1 8h'']"
    by (simp add: store0_def frame2_def getitem_def dict_get_def)
  have h5: "to_datetime (parse lib0 [Other ''d1 8h'']) [Other ''d1 8h''] = Inr [Stamp \<lparr>day = 1, tod = 8\<rparr>]"
    by (simp add: to_datetime_def lib0_def parse0_def)
  have h6: "getitem (objs store0 1) ''DATE'' = Inr [Other ''d1'']"
    by (simp add: store0_def frame2_def getitem_def dict_get_def)
  have h7: "to_datetime (parse lib0 [Other ''d1'']) [Other ''d1''] = Inr [Stamp \<lparr>day = 1, tod = 0\<rparr>]"
    by (simp add: to_datetime_def lib0_def parse0_def)
  have h7': "list_ex is_stamp [Stamp \<lparr>day = 1, tod = 0\<rparr>]" by simp
  have h8: "as_date (PDate 2) < as_date (PDate 3)" by simp
  have c: "columns (objs store0 1) = [''DATETIME'', ''DATE'', ''OvenA'', ''OvenB'']"
    by (simp add: store0_def frame2_def columns_def)
  from empty_range [OF refl h2 h3 h4 h5 h6 h7 h7' disjI1 [OF h8], of "[]"]
  obtain r s' where
    "run_script lib0 datasets0 [''OvenB''] (PDate 3) (PDate 2) store0 = (Inr (Rendered r), s')"
    "index (objs s' (view r)) = []" "rows_of (objs s' (view r)) = []" "shown r = Warning"
    "csv_data r = encode_csv lib0 \<lparr>header = columns (objs store0 1), body = []\<rparr>"
    "excel_data r = encode_xlsx lib0 ''FilteredData'' \<lparr>header = columns (objs store0 1), body = []\<rparr>"
    by blast
  then have "\<exists>r s'. run_script lib0 datasets0 [''OvenB''] (PDate 3) (PDate 2) store0 = (Inr (Rendered r), s') \<and>
      index (objs s' (view r)) = [] \<and> rows_of (objs s' (view r)) = [] \<and> shown r = Warning \<and>
      csv_data r = ''DATETIME;DATE;OvenA;OvenB;|'' \<and>
      excel_data r = ''FilteredData:DATETIME;DATE;OvenA;OvenB;|''"
    unfolding c by (intro exI [of _ r] exI [of _ s']) (simp add: lib0_def encode0_def line0_def)
  with h2 h3 h4 h5 h6 h7 h7' h8 show ?thesis by (intro conjI)
qed

text \<open>
  Claim C5 as stated fails for a dataset without any dated row. The only row of the
  example has a blank \<^verbatim>\<open>DATE\<close>, so no row satisfies the date predicate, and yet the
  script raises: the bounds handed to the date picker in line 182 are both missing.
\<close>

theorem blank_dates_counterexample:
  "dict_get (measurement_map store1 datasets1) ''OvenC'' = Inr ''dataset1'' \<and>
   dict_get datasets1 ''dataset1'' = Inr 0 \<and>
   getitem (objs store1 0) ''DATE'' = Inr [Other []] \<and>
   calendar_date (parse lib0 [Other []]) (Other []) = None \<and>
   \<not> in_range (PDate 1) (PDate 3) (calendar_date (parse lib0 [Other []]) (Other [])) \<and>
   fst (run_script lib0 datasets1 [''OvenC''] (PDate 1) (PDate 3) store1) = Inl ValueError"
proof -
  have a: "dict_get (measurement_map store1 datasets1) ''OvenC'' = Inr ''dataset1''"
    by code_simp
  have b: "dict_get datasets1 ''dataset1'' = Inr 0"
    by (simp add: datasets1_def dict_get_def)
  have c: "getitem (objs store1 0) ''DATE'' = Inr [Other []]"
    by (simp add: store1_def frame_blank_def getitem_def dict_get_def)
  have d: "calendar_date (parse lib0 [Other []]) (Other []) = None"
    by (simp add: calendar_date_def lib0_def parse0_def)
  then have e: "\<not> in_range (PDate 1) (PDate 3) (calendar_date (parse lib0 [Other []]) (Other []))"
    by (simp add: in_range_Some)
  have f: "fst (run_script lib0 datasets1 [''OvenC''] (PDate 1) (PDate 3) store1) = Inl ValueError"
    by code_simp
  from a b c d e f show ?thesis by (intro conjI)
qed

text \<open>
  Two more runs that raise: the comparison of line 199 on a column whose every value is
  missing, and the script on a dataset that has a header and no row.
\<close>

lemma all_missing_comparison_raises:
  "fst (filter_dates 0 (PDate 1) (PDate 3)
     \<lparr>objs = (\<lambda>_. \<lparr>cols = [(''DATE'', [NaT :: string cell])], index = [0]\<rparr>), next_free = 1\<rparr>)
   = Inl TypeError"
  by code_simp

lemma header_only_raises:
  "fst (run_script lib0 [(''dataset1'', 0)] [''OvenC''] (PDate 1) (PDate 3)
     \<lparr>objs = (\<lambda>_. \<lparr>cols = [(''DATETIME'', []), (''DATE'', []), (''OvenC'', [])], index = []\<rparr>),
      next_free = 1\<rparr>)
   = Inl ValueError"
  by code_simp

end
